theory Spec2Isabelle
  imports Main
begin

section \<open>Text\<close>

text \<open>
  Python strings are modelled as \<^typ>\<open>string\<close>, each \<^typ>\<open>char\<close> read as one code
  point in the range U+0000 .. U+00FF.  On that range \<open>str.isspace\<close> holds for the
  twelve characters of \<open>whitespace\<close> below, and \<open>str.lower\<close> maps \<open>A .. Z\<close> and the
  upper-case letters U+00C0 .. U+00DE (without the sign U+00D7) to the character 32
  code points later and leaves every other character alone.
\<close>

definition whitespace :: "char list" where
  "whitespace = [CHR 0x09, CHR 0x0A, CHR 0x0B, CHR 0x0C, CHR 0x0D,
                 CHR 0x1C, CHR 0x1D, CHR 0x1E, CHR 0x1F, CHR 0x20, CHR 0x85, CHR 0xA0]"

definition isspace :: "char \<Rightarrow> bool" where
  "isspace c = (c \<in> set whitespace)"

text \<open>\<open>s.strip()\<close>: leading and trailing whitespace removed.\<close>

definition strip :: "string \<Rightarrow> string" where
  "strip s = rev (dropWhile isspace (rev (dropWhile isspace s)))"

definition upper_letters :: "char list" where
  "upper_letters = ''ABCDEFGHIJKLMNOPQRSTUVWXYZ'' @
     [CHR 0xC0, CHR 0xC1, CHR 0xC2, CHR 0xC3, CHR 0xC4, CHR 0xC5, CHR 0xC6, CHR 0xC7,
      CHR 0xC8, CHR 0xC9, CHR 0xCA, CHR 0xCB, CHR 0xCC, CHR 0xCD, CHR 0xCE, CHR 0xCF,
      CHR 0xD0, CHR 0xD1, CHR 0xD2, CHR 0xD3, CHR 0xD4, CHR 0xD5, CHR 0xD6,
      CHR 0xD8, CHR 0xD9, CHR 0xDA, CHR 0xDB, CHR 0xDC, CHR 0xDD, CHR 0xDE]"

definition lower_letters :: "char list" where
  "lower_letters = ''abcdefghijklmnopqrstuvwxyz'' @
     [CHR 0xE0, CHR 0xE1, CHR 0xE2, CHR 0xE3, CHR 0xE4, CHR 0xE5, CHR 0xE6, CHR 0xE7,
      CHR 0xE8, CHR 0xE9, CHR 0xEA, CHR 0xEB, CHR 0xEC, CHR 0xED, CHR 0xEE, CHR 0xEF,
      CHR 0xF0, CHR 0xF1, CHR 0xF2, CHR 0xF3, CHR 0xF4, CHR 0xF5, CHR 0xF6,
      CHR 0xF8, CHR 0xF9, CHR 0xFA, CHR 0xFB, CHR 0xFC, CHR 0xFD, CHR 0xFE]"

definition lower_char :: "char \<Rightarrow> char" where
  "lower_char c = (case map_of (zip upper_letters lower_letters) c of
                     None \<Rightarrow> c | Some d \<Rightarrow> d)"

text \<open>\<open>s.lower()\<close>.\<close>

definition lower :: "string \<Rightarrow> string" where
  "lower s = map lower_char s"

text \<open>\<open>s.startswith(t)\<close>.\<close>

fun startswith :: "string \<Rightarrow> string \<Rightarrow> bool" where
  "startswith s [] = True"
| "startswith [] (t # ts) = False"
| "startswith (c # cs) (t # ts) = (c = t \<and> startswith cs ts)"

text \<open>\<open>t in s\<close> for strings: \<open>t\<close> occurs in \<open>s\<close> at some position.\<close>

fun contains :: "string \<Rightarrow> string \<Rightarrow> bool" where
  "contains [] t = (t = [])"
| "contains (c # cs) t = (startswith (c # cs) t \<or> contains cs t)"

text \<open>
  \<open>s.replace(old, '')\<close> for a non-empty \<open>old\<close>: scanning from the left, every
  occurrence of \<open>old\<close> is dropped and the scan goes on behind it, so the occurrences
  removed do not overlap.
\<close>

fun remove_all :: "string \<Rightarrow> string \<Rightarrow> string" where
  "remove_all old [] = []"
| "remove_all old (c # cs) =
     (if old \<noteq> [] \<and> startswith (c # cs) old
      then remove_all old (drop (length old) (c # cs))
      else c # remove_all old cs)"

section \<open>State of the chat server\<close>

text \<open>
  The two module-level dictionaries of \<open>app.py\<close>: \<open>active_users\<close> maps a connection
  id (\<open>request.sid\<close>) to the user's entry, \<open>chat_rooms\<close> maps a room name to the list
  of connection ids in it.
\<close>

type_synonym sid = string

record user_info =
  username :: string
  room :: string
  joined_at :: string

record state =
  active_users :: "sid \<rightharpoonup> user_info"
  chat_rooms :: "string \<rightharpoonup> sid list"

definition initial_state :: state where
  "initial_state =
     \<lparr>active_users = Map.empty,
      chat_rooms = [''general'' \<mapsto> [], ''tech'' \<mapsto> [], ''random'' \<mapsto> []]\<rparr>"

section \<open>Events sent by the handlers\<close>

record room_entry =
  user_count :: nat
  users :: "string list"

datatype payload =
    Status string
  | Error string
  | Message string string string string
  | UserJoined string string
  | UserLeft string string
  | RoomInfo string "string list" nat
  | RoomsList "string \<rightharpoonup> room_entry"

text \<open>
  \<open>Message u m t k\<close> is the dictionary with the keys \<open>username\<close>, \<open>message\<close>,
  \<open>timestamp\<close> and \<open>type\<close>; \<open>UserJoined u t\<close> and \<open>UserLeft u t\<close> carry \<open>username\<close> and
  \<open>timestamp\<close>; \<open>RoomInfo r us n\<close> carries \<open>room\<close>, \<open>users\<close> and \<open>user_count\<close>.

  An \<open>emit\<close> without a room goes to the calling connection only; with \<open>room=r\<close> it goes
  to everybody in the Socket.IO room \<open>r\<close>, and \<open>include_self=False\<close> leaves the caller
  out.
\<close>

datatype target = Sender | Room string | RoomExceptSender string

datatype effect =
    Emit target payload
  | JoinRoom string
  | LeaveRoom string
  | StartThread string string

text \<open>
  \<open>StartThread r m\<close> is the start of the background thread that runs
  \<open>generate_and_send_ai_response\<close>, whose closure holds the room \<open>r\<close> and the message
  \<open>m\<close>.

  \<open>datetime.now().isoformat()\<close> is read from a clock handed to each handler: \<open>clock n\<close>
  is what the \<open>n\<close>-th reading inside that handler call returns.
\<close>

type_synonym clock = "nat \<Rightarrow> string"

text \<open>\<open>data.get(key, default)\<close> on the event's dictionary (string values).\<close>

definition dict_get :: "(string \<rightharpoonup> string) \<Rightarrow> string \<Rightarrow> string \<Rightarrow> string" where
  "dict_get data key dflt = (case data key of None \<Rightarrow> dflt | Some v \<Rightarrow> v)"

section \<open>Presence: connect, disconnect, join\<close>

definition handle_connect :: "state \<Rightarrow> state \<times> effect list" where
  "handle_connect s = (s, [Emit Sender (Status ''Connected to chat server'')])"

text \<open>Lines 157-158 and 190-192: take the connection out of a room's list if it is there.\<close>

definition remove_from_room :: "sid \<Rightarrow> string \<Rightarrow> (string \<rightharpoonup> sid list) \<Rightarrow> (string \<rightharpoonup> sid list)" where
  "remove_from_room c r rooms =
     (case rooms r of
        None \<Rightarrow> rooms
      | Some members \<Rightarrow> if c \<in> set members then rooms(r \<mapsto> remove1 c members) else rooms)"

definition in_room :: "sid \<Rightarrow> string \<Rightarrow> (string \<rightharpoonup> sid list) \<Rightarrow> bool" where
  "in_room c r rooms = (case rooms r of None \<Rightarrow> False | Some members \<Rightarrow> c \<in> set members)"

definition handle_disconnect :: "sid \<Rightarrow> clock \<Rightarrow> state \<Rightarrow> state \<times> effect list" where
  "handle_disconnect c clock s =
     (case active_users s c of
        None \<Rightarrow> (s, [])
      | Some user_info \<Rightarrow>
          (\<lparr>active_users = (active_users s)(c := None),
            chat_rooms = remove_from_room c (room user_info) (chat_rooms s)\<rparr>,
           [Emit (Room (room user_info)) (UserLeft (username user_info) (clock 0))]))"

text \<open>Lines 204-208: create the room if it is missing, append the connection if it is new.\<close>

definition add_to_room :: "sid \<Rightarrow> string \<Rightarrow> (string \<rightharpoonup> sid list) \<Rightarrow> (string \<rightharpoonup> sid list)" where
  "add_to_room c r rooms =
     (let members = (case rooms r of None \<Rightarrow> [] | Some ms \<Rightarrow> ms)
      in rooms(r \<mapsto> (if c \<in> set members then members else members @ [c])))"

text \<open>Lines 225-228: the loop that collects the user names of a room.\<close>

definition room_users :: "(sid \<rightharpoonup> user_info) \<Rightarrow> sid list \<Rightarrow> string list" where
  "room_users au members =
     foldl (\<lambda>acc c. case au c of None \<Rightarrow> acc | Some u \<Rightarrow> acc @ [username u]) [] members"

definition handle_join :: "sid \<Rightarrow> (string \<rightharpoonup> string) \<Rightarrow> clock \<Rightarrow> state \<Rightarrow> state \<times> effect list" where
  "handle_join c data clock s =
     (let uname = strip (dict_get data ''username'' '''');
          r = strip (dict_get data ''room'' ''general'')
      in if uname = [] then (s, [Emit Sender (Error ''Username is required'')])
         else
           let (rooms1, left) =
                 (case active_users s c of
                    None \<Rightarrow> (chat_rooms s, [])
                  | Some old \<Rightarrow>
                      if in_room c (room old) (chat_rooms s)
                      then (remove_from_room c (room old) (chat_rooms s), [LeaveRoom (room old)])
                      else (chat_rooms s, []));
               users1 = (active_users s)(c \<mapsto> \<lparr>username = uname, room = r, joined_at = clock 0\<rparr>);
               rooms2 = add_to_room c r rooms1;
               names = room_users users1 (case rooms2 r of None \<Rightarrow> [] | Some ms \<Rightarrow> ms)
           in (\<lparr>active_users = users1, chat_rooms = rooms2\<rparr>,
               left @
               [JoinRoom r,
                Emit Sender (Message ''System'' (''Welcome to '' @ r @ '' room, '' @ uname @ ''!'')
                               (clock 1) ''system''),
                Emit (RoomExceptSender r) (UserJoined uname (clock 2)),
                Emit Sender (RoomInfo r names (length names))]))"

section \<open>Messages and the AI thread\<close>

definition handle_message :: "sid \<Rightarrow> (string \<rightharpoonup> string) \<Rightarrow> clock \<Rightarrow> state \<Rightarrow> state \<times> effect list" where
  "handle_message c data clock s =
     (case active_users s c of
        None \<Rightarrow> (s, [Emit Sender (Error ''You must join a room first'')])
      | Some user_info \<Rightarrow>
          let message = strip (dict_get data ''message'' '''')
          in if message = [] then (s, [Emit Sender (Error ''Message cannot be empty'')])
             else
               let should_trigger_ai =
                     (startswith (lower message) ''@ai'' \<or> contains (lower message) ''@ai'')
               in (s,
                   Emit (Room (room user_info))
                     (Message (username user_info) message (clock 0) ''user'') #
                   (if should_trigger_ai then [StartThread (room user_info) message] else [])))"

text \<open>Lines 277-279: the prompt the thread computes from the message.\<close>

definition ai_prompt :: "string \<Rightarrow> string" where
  "ai_prompt message =
     (let p = strip (remove_all ''@ai'' message) in if p = [] then message else p)"








section \<open>Room listings\<close>

text \<open>
  \<open>[active_users[sid]['username'] for sid in user_sids if sid in active_users]\<close>, written
  once in \<open>handle_get_rooms\<close> and once in \<open>get_rooms\<close>.
\<close>

definition handle_get_rooms :: "state \<Rightarrow> state \<times> effect list" where
  "handle_get_rooms s =
     (s, [Emit Sender (RoomsList (\<lambda>r.
            case chat_rooms s r of
              None \<Rightarrow> None
            | Some user_sids \<Rightarrow>
                let active_users_in_room =
                      map (\<lambda>c. username (the (active_users s c)))
                        (filter (\<lambda>c. active_users s c \<noteq> None) user_sids)
                in Some \<lparr>user_count = length active_users_in_room,
                         users = active_users_in_room\<rparr>))])"

definition get_rooms :: "state \<Rightarrow> (string \<rightharpoonup> room_entry)" where
  "get_rooms s =
     (\<lambda>r. case chat_rooms s r of
             None \<Rightarrow> None
           | Some user_sids \<Rightarrow>
               let active_users_in_room =
                     map (\<lambda>c. username (the (active_users s c)))
                       (filter (\<lambda>c. active_users s c \<noteq> None) user_sids)
               in Some \<lparr>user_count = length active_users_in_room,
                        users = active_users_in_room\<rparr>)"

section \<open>Reachable states\<close>

inductive reachable :: "state \<Rightarrow> bool" where
  init: "reachable initial_state"
| connect: "reachable s \<Longrightarrow> reachable (fst (handle_connect s))"
| join: "reachable s \<Longrightarrow> reachable (fst (handle_join c data clock s))"
| disconnect: "reachable s \<Longrightarrow> reachable (fst (handle_disconnect c clock s))"
| message: "reachable s \<Longrightarrow> reachable (fst (handle_message c data clock s))"
| get_rooms: "reachable s \<Longrightarrow> reachable (fst (handle_get_rooms s))"

text \<open>
  What the handlers keep true: a listed connection has an entry naming that room, no
  list repeats a connection, and a connection with an entry is listed in its room.
\<close>

definition members_have_session :: "state \<Rightarrow> bool" where
  "members_have_session s =
     (\<forall>r members c. chat_rooms s r = Some members \<and> c \<in> set members \<longrightarrow>
        (\<exists>u. active_users s c = Some u \<and> room u = r))"

definition members_distinct :: "state \<Rightarrow> bool" where
  "members_distinct s = (\<forall>r members. chat_rooms s r = Some members \<longrightarrow> distinct members)"

definition sessions_listed :: "state \<Rightarrow> bool" where
  "sessions_listed s =
     (\<forall>c u. active_users s c = Some u \<longrightarrow> in_room c (room u) (chat_rooms s))"

definition coherent :: "state \<Rightarrow> bool" where
  "coherent s = (members_have_session s \<and> members_distinct s \<and> sessions_listed s)"

text \<open>
  The room directory after the connection has been taken out of the room its entry
  names (the first step of a room switch and of a disconnect).
\<close>

definition vacate :: "sid \<Rightarrow> state \<Rightarrow> (string \<rightharpoonup> sid list)" where
  "vacate c s = (case active_users s c of None \<Rightarrow> chat_rooms s
                  | Some old \<Rightarrow> remove_from_room c (room old) (chat_rooms s))"

text \<open>The member list of a room, empty for a room that does not exist.\<close>

definition members_of :: "state \<Rightarrow> string \<Rightarrow> sid list" where
  "members_of s r = (case chat_rooms s r of None \<Rightarrow> [] | Some ms \<Rightarrow> ms)"

text \<open>
  The user names of those connections of a member list that have an entry in
  \<open>active_users\<close>, in the order of the list.
\<close>

definition usernames_of :: "(sid \<rightharpoonup> user_info) \<Rightarrow> sid list \<Rightarrow> string list" where
  "usernames_of au members = List.map_filter (\<lambda>c. map_option username (au c)) members"

section \<open>Example inputs\<close>

definition example_clock :: clock where
  "example_clock n = ''2025-01-01T00:00:00''"

definition later_clock :: clock where
  "later_clock n = ''2025-01-01T00:05:00''"

definition alice_tech :: "string \<rightharpoonup> string" where
  "alice_tech = [''username'' \<mapsto> ''alice'', ''room'' \<mapsto> ''tech'']"

definition alice_blank_room :: "string \<rightharpoonup> string" where
  "alice_blank_room = [''username'' \<mapsto> ''alice'', ''room'' \<mapsto> ''  '']"

definition alice_new_room :: "string \<rightharpoonup> string" where
  "alice_new_room = [''username'' \<mapsto> ''alice'', ''room'' \<mapsto> ''lounge'']"

text \<open>The state after the connection \<open>c1\<close> has joined the room \<open>tech\<close> as \<open>alice\<close>.\<close>

definition alice_in_tech :: state where
  "alice_in_tech = fst (handle_join ''c1'' alice_tech example_clock initial_state)"

section \<open>The prompt as the specification words it\<close>

text \<open>
  The specification speaks of removing an occurrence of the token \<open>@ai\<close> ``in any letter
  case''.  These functions follow those words, to be compared with \<open>remove_all\<close>, which
  is what \<open>message.replace('@ai', '')\<close> does.  \<open>remove_first_ci\<close> drops the first
  occurrence found when the letter case is ignored; \<open>remove_all_ci\<close> drops every such
  occurrence, scanning from the left.
\<close>

fun remove_first_ci :: "string \<Rightarrow> string \<Rightarrow> string" where
  "remove_first_ci tok [] = []"
| "remove_first_ci tok (c # cs) =
     (if startswith (lower (c # cs)) tok then drop (length tok) (c # cs)
      else c # remove_first_ci tok cs)"

fun remove_all_ci :: "string \<Rightarrow> string \<Rightarrow> string" where
  "remove_all_ci tok [] = []"
| "remove_all_ci tok (c # cs) =
     (if tok \<noteq> [] \<and> startswith (lower (c # cs)) tok
      then remove_all_ci tok (drop (length tok) (c # cs))
      else c # remove_all_ci tok cs)"

text \<open>Every occurrence of the token, found with the letter case ignored, is in lower case.\<close>

fun tokens_lower_case :: "string \<Rightarrow> string \<Rightarrow> bool" where
  "tokens_lower_case tok [] = True"
| "tokens_lower_case tok (c # cs) =
     ((startswith (lower (c # cs)) tok \<longrightarrow> startswith (c # cs) tok) \<and> tokens_lower_case tok cs)"

section \<open>Example backends and messages\<close>





definition ask_ai :: "string \<rightharpoonup> string" where
  "ask_ai = [''message'' \<mapsto> '' @ai what is 2+2 '']"

section \<open>Properties\<close>

subsection \<open>The state after a join and after a disconnect\<close>

lemma coherent_initial: "coherent initial_state"
  by (simp add: coherent_def members_have_session_def members_distinct_def sessions_listed_def
      initial_state_def split: if_splits)

lemma remove_from_room_lookup:
  "remove_from_room c r rooms r' =
     (if r' = r then map_option (remove1 c) (rooms r) else rooms r')"
  by (auto simp: remove_from_room_def remove1_idem split: option.splits)

lemma add_to_room_lookup:
  "add_to_room c r rooms r' =
     (if r' = r
      then Some (case rooms r of None \<Rightarrow> [c] | Some ms \<Rightarrow> if c \<in> set ms then ms else ms @ [c])
      else rooms r')"
  by (auto simp: add_to_room_def Let_def split: option.splits)

lemma handle_join_state:
  "fst (handle_join c data clock s) =
     (let uname = strip (dict_get data ''username'' '''');
          r = strip (dict_get data ''room'' ''general'')
      in if uname = [] then s
         else \<lparr>active_users = (active_users s)(c \<mapsto> \<lparr>username = uname, room = r, joined_at = clock 0\<rparr>),
               chat_rooms = add_to_room c r (vacate c s)\<rparr>)"
  by (auto simp: handle_join_def vacate_def Let_def in_room_def remove_from_room_def split: option.splits)

lemma handle_disconnect_state:
  "fst (handle_disconnect c clock s) =
     (case active_users s c of None \<Rightarrow> s
      | Some u \<Rightarrow> \<lparr>active_users = (active_users s)(c := None), chat_rooms = vacate c s\<rparr>)"
  by (auto simp: handle_disconnect_def vacate_def split: option.splits)

lemma vacate_members:
  assumes "coherent s" "vacate c s r = Some ms"
  shows "\<exists>ms0. chat_rooms s r = Some ms0 \<and> set ms = set ms0 - {c} \<and> distinct ms"
proof (cases "active_users s c")
  case None
  with assms have "chat_rooms s r = Some ms" by (simp add: vacate_def)
  moreover from this assms(1) None have "c \<notin> set ms"
    by (fastforce simp: coherent_def members_have_session_def)
  moreover from \<open>chat_rooms s r = Some ms\<close> assms(1) have "distinct ms"
    by (auto simp: coherent_def members_distinct_def)
  ultimately show ?thesis by auto
next
  case (Some old)
  show ?thesis
  proof (cases "r = room old")
    case True
    with Some assms(2) obtain ms0 where m: "chat_rooms s r = Some ms0" "ms = remove1 c ms0"
      by (auto simp: vacate_def remove_from_room_lookup)
    from m(1) assms(1) have "distinct ms0" by (auto simp: coherent_def members_distinct_def)
    with m show ?thesis by auto
  next
    case False
    with Some assms(2) have m: "chat_rooms s r = Some ms"
      by (auto simp: vacate_def remove_from_room_lookup)
    with assms(1) Some False have "c \<notin> set ms"
      by (fastforce simp: coherent_def members_have_session_def)
    moreover from m assms(1) have "distinct ms" by (auto simp: coherent_def members_distinct_def)
    ultimately show ?thesis using m by auto
  qed
qed

lemma vacate_dom: "(vacate c s r = None) = (chat_rooms s r = None)"
  by (auto simp: vacate_def remove_from_room_lookup split: option.splits)

lemma vacate_keeps:
  assumes "chat_rooms s r = Some ms0"
  shows "\<exists>ms. vacate c s r = Some ms \<and> set ms0 - {c} \<subseteq> set ms"
  using assms by (auto simp: vacate_def remove_from_room_lookup split: option.splits)
    (metis in_set_remove1)

lemma in_room_iff: "in_room c r rooms = (\<exists>ms. rooms r = Some ms \<and> c \<in> set ms)"
  by (simp add: in_room_def split: option.splits)

lemma coherent_vacate_join:
  assumes "coherent s"
  shows "coherent \<lparr>active_users = (active_users s)(c \<mapsto> \<lparr>username = n, room = r, joined_at = t\<rparr>),
                   chat_rooms = add_to_room c r (vacate c s)\<rparr>"
proof -
  have 1: "members_have_session \<lparr>active_users = (active_users s)(c \<mapsto> \<lparr>username = n, room = r, joined_at = t\<rparr>),
                   chat_rooms = add_to_room c r (vacate c s)\<rparr>"
    unfolding members_have_session_def
  proof (intro allI impI, elim conjE)
    fix r' members c'
    assume a: "chat_rooms \<lparr>active_users = (active_users s)(c \<mapsto> \<lparr>username = n, room = r, joined_at = t\<rparr>),
                   chat_rooms = add_to_room c r (vacate c s)\<rparr> r' = Some members" and b: "c' \<in> set members"
    show "\<exists>u. active_users \<lparr>active_users = (active_users s)(c \<mapsto> \<lparr>username = n, room = r, joined_at = t\<rparr>),
                   chat_rooms = add_to_room c r (vacate c s)\<rparr> c' = Some u \<and> room u = r'"
    proof (cases "c' = c")
      case True
      have "r' = r"
      proof (rule ccontr)
        assume "r' \<noteq> r"
        with a have "vacate c s r' = Some members" by (simp add: add_to_room_lookup)
        from vacate_members[OF assms this] b True show False by auto
      qed
      with True show ?thesis by simp
    next
      case False
      have "\<exists>ms0. chat_rooms s r' = Some ms0 \<and> c' \<in> set ms0"
      proof (cases "r' = r")
        case True
        show ?thesis
        proof (cases "vacate c s r")
          case None
          with a True b False show ?thesis by (auto simp: add_to_room_lookup)
        next
          case (Some ms)
          with a True b False have "c' \<in> set ms" by (auto simp: add_to_room_lookup split: if_splits)
          with vacate_members[OF assms Some] True show ?thesis by auto
        qed
      next
        case rr: False
        with a have "vacate c s r' = Some members" by (simp add: add_to_room_lookup)
        from vacate_members[OF assms this] b show ?thesis by auto
      qed
      with assms False show ?thesis
        by (fastforce simp: coherent_def members_have_session_def)
    qed
  qed
  have 2: "members_distinct \<lparr>active_users = (active_users s)(c \<mapsto> \<lparr>username = n, room = r, joined_at = t\<rparr>),
                   chat_rooms = add_to_room c r (vacate c s)\<rparr>"
    unfolding members_distinct_def
  proof (intro allI impI)
    fix r' members
    assume a: "chat_rooms \<lparr>active_users = (active_users s)(c \<mapsto> \<lparr>username = n, room = r, joined_at = t\<rparr>),
                   chat_rooms = add_to_room c r (vacate c s)\<rparr> r' = Some members"
    show "distinct members"
    proof (cases "r' = r")
      case True
      show ?thesis
      proof (cases "vacate c s r")
        case None
        with a True show ?thesis by (auto simp: add_to_room_lookup)
      next
        case (Some ms)
        from vacate_members[OF assms Some] have "distinct ms" by auto
        with a True Some show ?thesis by (auto simp: add_to_room_lookup split: if_splits)
      qed
    next
      case False
      with a have "vacate c s r' = Some members" by (simp add: add_to_room_lookup)
      from vacate_members[OF assms this] show ?thesis by auto
    qed
  qed
  have 3: "sessions_listed \<lparr>active_users = (active_users s)(c \<mapsto> \<lparr>username = n, room = r, joined_at = t\<rparr>),
                   chat_rooms = add_to_room c r (vacate c s)\<rparr>"
    unfolding sessions_listed_def
  proof (intro allI impI)
    fix c' u
    assume a: "active_users \<lparr>active_users = (active_users s)(c \<mapsto> \<lparr>username = n, room = r, joined_at = t\<rparr>),
                   chat_rooms = add_to_room c r (vacate c s)\<rparr> c' = Some u"
    show "in_room c' (room u) (chat_rooms \<lparr>active_users = (active_users s)(c \<mapsto> \<lparr>username = n, room = r, joined_at = t\<rparr>),
                   chat_rooms = add_to_room c r (vacate c s)\<rparr>)"
    proof (cases "c' = c")
      case True
      with a have "room u = r" by auto
      with True show ?thesis by (auto simp: in_room_iff add_to_room_lookup split: option.splits)
    next
      case False
      with a have "active_users s c' = Some u" by simp
      with assms obtain ms0 where m: "chat_rooms s (room u) = Some ms0" "c' \<in> set ms0"
        by (auto simp: coherent_def sessions_listed_def in_room_iff)
      from vacate_keeps[OF m(1), of c] False m(2) obtain ms where
        "vacate c s (room u) = Some ms" "c' \<in> set ms" by auto
      then show ?thesis by (auto simp: in_room_iff add_to_room_lookup)
    qed
  qed
  from 1 2 3 show ?thesis by (simp add: coherent_def)
qed

lemma coherent_join: "coherent s \<Longrightarrow> coherent (fst (handle_join c data clock s))"
  by (simp add: handle_join_state Let_def coherent_vacate_join)

lemma coherent_vacate_leave:
  assumes "coherent s"
  shows "coherent \<lparr>active_users = (active_users s)(c := None), chat_rooms = vacate c s\<rparr>"
proof -
  have 1: "members_have_session \<lparr>active_users = (active_users s)(c := None), chat_rooms = vacate c s\<rparr>"
    unfolding members_have_session_def
  proof (intro allI impI, elim conjE)
    fix r' members c'
    assume a: "chat_rooms \<lparr>active_users = (active_users s)(c := None), chat_rooms = vacate c s\<rparr> r' = Some members"
      and b: "c' \<in> set members"
    from a have "vacate c s r' = Some members" by simp
    from vacate_members[OF assms this] b obtain ms0 where
      "chat_rooms s r' = Some ms0" "c' \<in> set ms0" "c' \<noteq> c" by auto
    with assms show "\<exists>u. active_users \<lparr>active_users = (active_users s)(c := None), chat_rooms = vacate c s\<rparr> c' = Some u \<and> room u = r'"
      by (fastforce simp: coherent_def members_have_session_def)
  qed
  have 2: "members_distinct \<lparr>active_users = (active_users s)(c := None), chat_rooms = vacate c s\<rparr>"
    unfolding members_distinct_def
  proof (intro allI impI)
    fix r' members
    assume "chat_rooms \<lparr>active_users = (active_users s)(c := None), chat_rooms = vacate c s\<rparr> r' = Some members"
    then have "vacate c s r' = Some members" by simp
    from vacate_members[OF assms this] show "distinct members" by auto
  qed
  have 3: "sessions_listed \<lparr>active_users = (active_users s)(c := None), chat_rooms = vacate c s\<rparr>"
    unfolding sessions_listed_def
  proof (intro allI impI)
    fix c' u
    assume a: "active_users \<lparr>active_users = (active_users s)(c := None), chat_rooms = vacate c s\<rparr> c' = Some u"
    then have ne: "c' \<noteq> c" and "active_users s c' = Some u" by (auto split: if_splits)
    with assms obtain ms0 where m: "chat_rooms s (room u) = Some ms0" "c' \<in> set ms0"
      by (auto simp: coherent_def sessions_listed_def in_room_iff)
    from vacate_keeps[OF m(1), of c] ne m(2) obtain ms where
      "vacate c s (room u) = Some ms" "c' \<in> set ms" by auto
    then show "in_room c' (room u) (chat_rooms \<lparr>active_users = (active_users s)(c := None), chat_rooms = vacate c s\<rparr>)"
      by (auto simp: in_room_iff)
  qed
  from 1 2 3 show ?thesis by (simp add: coherent_def)
qed

lemma coherent_disconnect: "coherent s \<Longrightarrow> coherent (fst (handle_disconnect c clock s))"
  by (simp add: handle_disconnect_state coherent_vacate_leave split: option.splits)

lemma handle_message_state: "fst (handle_message c data clock s) = s"
  by (simp add: handle_message_def Let_def split: option.splits)

lemma reachable_coherent: "reachable s \<Longrightarrow> coherent s"
proof (induction rule: reachable.induct)
  case init
  show ?case by (rule coherent_initial)
next
  case (connect s)
  then show ?case by (simp add: handle_connect_def)
next
  case (join s c data clock)
  then show ?case by (simp add: coherent_join)
next
  case (disconnect s c clock)
  then show ?case by (simp add: coherent_disconnect)
next
  case (message s c data clock)
  then show ?case by (simp add: handle_message_state)
next
  case (get_rooms s)
  then show ?case by (simp add: handle_get_rooms_def)
qed

subsection \<open>Evaluation of the example inputs\<close>

lemma strip_examples:
  "strip ''alice'' = ''alice''" "strip ''tech'' = ''tech''" "strip ''  '' = []"
  "strip ''lounge'' = ''lounge''" "strip ''general'' = ''general''"
  by (simp_all add: strip_def isspace_def whitespace_def)

subsection \<open>The three ways the user names of a room are collected\<close>

lemma room_users_foldl:
  "foldl (\<lambda>acc c. case au c of None \<Rightarrow> acc | Some u \<Rightarrow> acc @ [username u]) acc members =
     acc @ usernames_of au members"
  by (induction members arbitrary: acc)
     (auto simp: usernames_of_def List.map_filter_simps split: option.splits)

lemma room_users_eq: "room_users au members = usernames_of au members"
  by (simp add: room_users_def room_users_foldl)

lemma comprehension_eq:
  "map (\<lambda>c. username (the (au c))) (filter (\<lambda>c. au c \<noteq> None) members) = usernames_of au members"
  by (induction members) (auto simp: usernames_of_def List.map_filter_simps)

subsection \<open>The example state\<close>

lemma alice_tech_fields:
  "strip (dict_get alice_tech ''username'' '''') = ''alice''"
  "strip (dict_get alice_tech ''room'' ''general'') = ''tech''"
  by (simp_all add: alice_tech_def dict_get_def strip_examples)

lemma initial_state_fields:
  "active_users initial_state = Map.empty"
  "chat_rooms initial_state = [''general'' \<mapsto> [], ''tech'' \<mapsto> [], ''random'' \<mapsto> []]"
  by (simp_all add: initial_state_def)

lemma vacate_initial: "vacate c initial_state = chat_rooms initial_state"
  by (simp add: vacate_def initial_state_fields(1))

lemma alice_in_tech_state:
  "alice_in_tech =
     \<lparr>active_users = [''c1'' \<mapsto> \<lparr>username = ''alice'', room = ''tech'', joined_at = ''2025-01-01T00:00:00''\<rparr>],
      chat_rooms = (chat_rooms initial_state)(''tech'' \<mapsto> [''c1''])\<rparr>"
  by (simp add: alice_in_tech_def handle_join_state alice_tech_fields Let_def vacate_initial
      add_to_room_def initial_state_fields example_clock_def)

lemma reachable_alice_in_tech: "reachable alice_in_tech"
  unfolding alice_in_tech_def by (rule reachable.join) (rule reachable.init)

subsection \<open>The effects of a join that passes the check of the user name\<close>

lemma join_effects:
  "strip (dict_get data ''username'' '''') \<noteq> [] \<Longrightarrow>
   snd (handle_join c data clock s) =
     (let uname = strip (dict_get data ''username'' '''');
          r = strip (dict_get data ''room'' ''general'');
          s' = fst (handle_join c data clock s);
          names = usernames_of (active_users s') (members_of s' r)
      in (case active_users s c of
            None \<Rightarrow> []
          | Some old \<Rightarrow> if in_room c (room old) (chat_rooms s) then [LeaveRoom (room old)] else []) @
         [JoinRoom r,
          Emit Sender (Message ''System'' (''Welcome to '' @ r @ '' room, '' @ uname @ ''!'')
                               (clock 1) ''system''),
          Emit (RoomExceptSender r) (UserJoined uname (clock 2)),
          Emit Sender (RoomInfo r names (length names))])"
proof -
  assume v: "strip (dict_get data ''username'' '''') \<noteq> []"
  have vac: "(case active_users s c of
                    None \<Rightarrow> (chat_rooms s, [])
                  | Some old \<Rightarrow>
                      if in_room c (room old) (chat_rooms s)
                      then (remove_from_room c (room old) (chat_rooms s), [LeaveRoom (room old)])
                      else (chat_rooms s, [])) =
       (vacate c s, case active_users s c of None \<Rightarrow> []
          | Some old \<Rightarrow> if in_room c (room old) (chat_rooms s) then [LeaveRoom (room old)] else [])"
    by (auto simp: vacate_def in_room_def remove_from_room_def split: option.splits)
  from v show ?thesis
    unfolding handle_join_state
    by (simp add: handle_join_def Let_def vac room_users_eq members_of_def)
qed

subsection \<open>More on the example states and on leaving a room\<close>

lemma vacate_other:
  "active_users s c = Some cur \<Longrightarrow> r' \<noteq> room cur \<Longrightarrow> vacate c s r' = chat_rooms s r'"
  by (simp add: vacate_def remove_from_room_lookup)

lemma vacate_own:
  "active_users s c = Some cur \<Longrightarrow> vacate c s (room cur) = map_option (remove1 c) (chat_rooms s (room cur))"
  by (simp add: vacate_def remove_from_room_lookup)

lemma alice_new_room_fields:
  "strip (dict_get alice_new_room ''username'' '''') = ''alice''"
  "strip (dict_get alice_new_room ''room'' ''general'') = ''lounge''"
  by (simp_all add: alice_new_room_def dict_get_def strip_examples)

lemma alice_session:
  "active_users alice_in_tech ''c1'' =
     Some \<lparr>username = ''alice'', room = ''tech'', joined_at = ''2025-01-01T00:00:00''\<rparr>"
  by (simp add: alice_in_tech_state)

subsection \<open>Removing the token\<close>

lemma startswith_lower: "startswith s t \<Longrightarrow> startswith (lower s) (lower t)"
  by (induction s t rule: startswith.induct) (auto simp: lower_def)

lemma tokens_lower_case_drop: "tokens_lower_case tok s \<Longrightarrow> tokens_lower_case tok (drop n s)"
proof (induction s arbitrary: n)
  case Nil
  then show ?case by simp
next
  case (Cons c cs)
  then show ?case by (cases n) auto
qed

lemma remove_all_ci_eq:
  "lower tok = tok \<Longrightarrow> tokens_lower_case tok s \<Longrightarrow> remove_all tok s = remove_all_ci tok s"
proof (induction tok s rule: remove_all.induct)
  case (1 old)
  then show ?case by simp
next
  case (2 old c cs)
  have iff: "startswith (lower (c # cs)) old = startswith (c # cs) old"
  proof
    assume "startswith (lower (c # cs)) old"
    with "2.prems"(2) show "startswith (c # cs) old" by simp
  next
    assume "startswith (c # cs) old"
    then have "startswith (lower (c # cs)) (lower old)" by (rule startswith_lower)
    with "2.prems"(1) show "startswith (lower (c # cs)) old" by simp
  qed
  show ?case
  proof (cases "old \<noteq> [] \<and> startswith (c # cs) old")
    case True
    from "2.prems"(2) have "tokens_lower_case old (drop (length old) (c # cs))"
      by (rule tokens_lower_case_drop)
    with True "2.prems"(1) have "remove_all old (drop (length old) (c # cs)) =
        remove_all_ci old (drop (length old) (c # cs))"
      by (rule "2.IH"(1))
    with True iff show ?thesis by simp
  next
    case False
    from "2.prems"(2) have "tokens_lower_case old cs" by simp
    with False "2.prems"(1) have "remove_all old cs = remove_all_ci old cs"
      by (rule "2.IH"(2))
    with False iff show ?thesis by auto
  qed
qed

lemma lower_token: "lower ''@ai'' = ''@ai''"
  by (simp add: lower_def lower_char_def upper_letters_def lower_letters_def)

lemma contains_nonempty: "contains (lower m) ''@ai'' \<Longrightarrow> m \<noteq> []"
  by (auto simp: lower_def)

lemma lower_fixed_tokens: "lower s = s \<Longrightarrow> tokens_lower_case tok s"
  by (induction s) (auto simp: lower_def)

lemma ask_ai_message: "strip (dict_get ask_ai ''message'' '''') = ''@ai what is 2+2''"
  by (simp add: ask_ai_def dict_get_def strip_def isspace_def whitespace_def)

lemma ask_ai_lower: "lower ''@ai what is 2+2'' = ''@ai what is 2+2''"
  by (simp add: lower_def lower_char_def upper_letters_def lower_letters_def)

text \<open>
  The removal compares letters exactly, although the trigger ignores the letter case: a
  token written \<open>@AI\<close> starts the thread and stays in the prompt.
\<close>

lemma upper_case_token_kept: "ai_prompt ''@AI hello'' = ''@AI hello''"
  by (simp add: ai_prompt_def strip_def isspace_def whitespace_def)

section \<open>Claims\<close>

text \<open>
  C7.  A message from a connection that has no entry in \<open>active_users\<close> changes neither
  dictionary and has one effect only: an \<open>error\<close> event to the sender.  So nothing is
  sent to a room and no AI thread is started.
\<close>

theorem not_joined_message:
  assumes "active_users s c = None"
  shows "handle_message c data clock s = (s, [Emit Sender (Error ''You must join a room first'')])"
  using assms by (simp add: handle_message_def)

theorem not_joined_message_witness:
  "active_users initial_state ''c1'' = None \<and>
   handle_message ''c1'' alice_tech example_clock initial_state =
     (initial_state, [Emit Sender (Error ''You must join a room first'')])"
proof -
  have h: "active_users initial_state ''c1'' = None" by (simp add: initial_state_def)
  from h not_joined_message [OF h] show ?thesis by simp
qed

text \<open>
  C8.  In every state the payload of the \<open>rooms_list\<close> event that answers \<open>get_rooms\<close> is
  the mapping the REST endpoint \<open>/rooms\<close> returns: the same rooms, and for each room the
  same \<open>users\<close> and \<open>user_count\<close>.
\<close>

theorem rest_rooms_equals_rooms_list:
  "handle_get_rooms s = (s, [Emit Sender (RoomsList (get_rooms s))])"
  by (simp add: handle_get_rooms_def get_rooms_def)

text \<open>
  C10.  Every room snapshot lists exactly the user names of the room's members that have
  an entry in \<open>active_users\<close>, in the order of the member list, and its \<open>user_count\<close> is
  the length of that list.  The \<open>room_info\<close> event that ends a join is computed so in
  the state after the join; the mapping of \<open>GET /rooms\<close> and the payload of
  \<open>rooms_list\<close> have such an entry for every room of \<open>chat_rooms\<close> and for no other
  name.
\<close>

theorem snapshot_users:
  "(strip (dict_get data ''username'' '''') \<noteq> [] \<longrightarrow>
      (let r = strip (dict_get data ''room'' ''general'');
           s' = fst (handle_join c data clock s);
           names = usernames_of (active_users s') (members_of s' r)
       in last (snd (handle_join c data clock s)) = Emit Sender (RoomInfo r names (length names))))
   \<and> get_rooms s =
         (\<lambda>r. map_option
                (\<lambda>members. \<lparr>user_count = length (usernames_of (active_users s) members),
                             users = usernames_of (active_users s) members\<rparr>)
                (chat_rooms s r))
   \<and> handle_get_rooms s =
         (s, [Emit Sender (RoomsList
            (\<lambda>r. map_option
                   (\<lambda>members. \<lparr>user_count = length (usernames_of (active_users s) members),
                                users = usernames_of (active_users s) members\<rparr>)
                   (chat_rooms s r)))])"
proof (intro conjI impI)
  assume v: "strip (dict_get data ''username'' '''') \<noteq> []"
  then show "let r = strip (dict_get data ''room'' ''general'');
           s' = fst (handle_join c data clock s);
           names = usernames_of (active_users s') (members_of s' r)
       in last (snd (handle_join c data clock s)) = Emit Sender (RoomInfo r names (length names))"
    by (simp add: join_effects Let_def)
next
  show "get_rooms s =
         (\<lambda>r. map_option
                (\<lambda>members. \<lparr>user_count = length (usernames_of (active_users s) members),
                             users = usernames_of (active_users s) members\<rparr>)
                (chat_rooms s r))"
    by (auto simp: get_rooms_def Let_def comprehension_eq fun_eq_iff simp del: not_None_eq
        split: option.splits)
next
  show "handle_get_rooms s =
         (s, [Emit Sender (RoomsList
            (\<lambda>r. map_option
                   (\<lambda>members. \<lparr>user_count = length (usernames_of (active_users s) members),
                                users = usernames_of (active_users s) members\<rparr>)
                   (chat_rooms s r)))])"
    by (auto simp: handle_get_rooms_def Let_def comprehension_eq fun_eq_iff simp del: not_None_eq
        split: option.splits)
qed

theorem snapshot_users_witness:
  "strip (dict_get alice_tech ''username'' '''') \<noteq> [] \<and>
   last (snd (handle_join ''c1'' alice_tech example_clock initial_state)) =
     Emit Sender (RoomInfo ''tech'' [''alice''] 1) \<and>
   get_rooms alice_in_tech ''tech'' = Some \<lparr>user_count = 1, users = [''alice'']\<rparr> \<and>
   get_rooms alice_in_tech ''general'' = Some \<lparr>user_count = 0, users = []\<rparr> \<and>
   get_rooms alice_in_tech ''lounge'' = None \<and>
   handle_get_rooms alice_in_tech =
     (alice_in_tech,
      [Emit Sender (RoomsList
         [''general'' \<mapsto> \<lparr>user_count = 0, users = []\<rparr>,
          ''tech'' \<mapsto> \<lparr>user_count = 1, users = [''alice'']\<rparr>,
          ''random'' \<mapsto> \<lparr>user_count = 0, users = []\<rparr>])])"
proof -
  have v: "strip (dict_get alice_tech ''username'' '''') \<noteq> []"
    by (simp add: alice_tech_fields)
  have n: "usernames_of (active_users alice_in_tech) (members_of alice_in_tech ''tech'') = [''alice'']"
    by (simp add: alice_in_tech_state initial_state_fields usernames_of_def members_of_def
        List.map_filter_simps)
  from snapshot_users [of alice_tech "''c1''" example_clock initial_state] v n
  have 1: "last (snd (handle_join ''c1'' alice_tech example_clock initial_state)) =
     Emit Sender (RoomInfo ''tech'' [''alice''] 1)"
    by (simp add: Let_def alice_tech_fields alice_in_tech_def [symmetric])
  have listing: "(\<lambda>r. map_option
         (\<lambda>members. \<lparr>user_count = length (usernames_of (active_users alice_in_tech) members),
                      users = usernames_of (active_users alice_in_tech) members\<rparr>)
         (chat_rooms alice_in_tech r)) =
      [''general'' \<mapsto> \<lparr>user_count = 0, users = []\<rparr>,
       ''tech'' \<mapsto> \<lparr>user_count = 1, users = [''alice'']\<rparr>,
       ''random'' \<mapsto> \<lparr>user_count = 0, users = []\<rparr>]"
    by (auto simp: alice_in_tech_state initial_state_fields usernames_of_def
        List.map_filter_simps fun_eq_iff)
  note g = snapshot_users [of alice_tech "''c1''" example_clock alice_in_tech,
      THEN conjunct2, THEN conjunct1, unfolded listing]
  note h = snapshot_users [of alice_tech "''c1''" example_clock alice_in_tech,
      THEN conjunct2, THEN conjunct2, unfolded listing]
  from g have 2: "get_rooms alice_in_tech ''tech'' = Some \<lparr>user_count = 1, users = [''alice'']\<rparr>"
    by simp
  from g have 3: "get_rooms alice_in_tech ''general'' = Some \<lparr>user_count = 0, users = []\<rparr>"
    by simp
  from g have 4: "get_rooms alice_in_tech ''lounge'' = None"
    by simp
  from v 1 2 3 4 h show ?thesis by (intro conjI)
qed

text \<open>
  C3, as the code has it.  A join whose user name is not empty after trimming never
  fails on the room and sends no \<open>error\<close> event.  The fallback \<open>general\<close> is taken only
  when the key \<open>room\<close> is absent; a room that is present is trimmed and used as it is, so
  a room of blanks puts the entry into the room with the empty name.
\<close>

theorem join_room_choice:
  assumes "strip (dict_get data ''username'' '''') \<noteq> []"
  shows "(\<exists>e. active_users (fst (handle_join c data clock s)) c = Some e \<and>
              room e = (case data ''room'' of None \<Rightarrow> ''general'' | Some requested \<Rightarrow> strip requested))
         \<and> (\<forall>t msg. Emit t (Error msg) \<notin> set (snd (handle_join c data clock s)))"
proof -
  have "strip ''general'' = ''general''" by (rule strip_examples)
  then have r: "strip (dict_get data ''room'' ''general'') =
      (case data ''room'' of None \<Rightarrow> ''general'' | Some requested \<Rightarrow> strip requested)"
    by (simp add: dict_get_def split: option.splits)
  from assms r have 1: "\<exists>e. active_users (fst (handle_join c data clock s)) c = Some e \<and>
              room e = (case data ''room'' of None \<Rightarrow> ''general'' | Some requested \<Rightarrow> strip requested)"
    by (simp add: handle_join_state Let_def)
  from assms have 2: "\<forall>t msg. Emit t (Error msg) \<notin> set (snd (handle_join c data clock s))"
    by (simp add: join_effects Let_def split: option.splits)
  from 1 2 show ?thesis by simp
qed

theorem join_room_choice_witness:
  "strip (dict_get alice_blank_room ''username'' '''') \<noteq> [] \<and>
   map_option room
     (active_users (fst (handle_join ''c1'' alice_blank_room example_clock initial_state)) ''c1'')
     = Some (strip ''  '')"
proof -
  have h: "strip (dict_get alice_blank_room ''username'' '''') \<noteq> []"
    by (simp add: alice_blank_room_def dict_get_def strip_examples)
  from h join_room_choice [OF h, of "''c1''" example_clock initial_state] show ?thesis
    by (auto simp: alice_blank_room_def)
qed

text \<open>
  C3 as stated fails: \<open>alice\<close> asks for the room \<open>''  ''\<close>, which trims to the empty
  string, and her entry names the room \<open>''''\<close>, not \<open>general\<close>.
\<close>

theorem join_room_not_general_counterexample:
  "strip (dict_get alice_blank_room ''room'' ''general'') = '''' \<and>
   map_option room
     (active_users (fst (handle_join ''c1'' alice_blank_room example_clock initial_state)) ''c1'') =
   Some '''' \<and>
   map_option room
     (active_users (fst (handle_join ''c1'' alice_blank_room example_clock initial_state)) ''c1'') \<noteq>
   Some ''general''"
  by (simp add: handle_join_state Let_def alice_blank_room_def dict_get_def strip_examples)

text \<open>
  C5, as the code has it.  For a connection that occurs nowhere in the state, a join with
  a valid user name followed by a disconnect gives back the old \<open>active_users\<close>; it gives
  back the old \<open>chat_rooms\<close>, and so the old state, when the room joined existed
  before.  A room that did not exist stays behind with an empty member list.
\<close>

theorem join_then_disconnect:
  assumes fresh: "active_users s c = None"
      "\<forall>r members. chat_rooms s r = Some members \<longrightarrow> c \<notin> set members"
    and valid: "strip (dict_get data ''username'' '''') \<noteq> []"
  shows "(let r = strip (dict_get data ''room'' ''general'');
              s'' = fst (handle_disconnect c clock' (fst (handle_join c data clock s)))
          in active_users s'' = active_users s \<and>
             chat_rooms s'' =
               (if chat_rooms s r = None then (chat_rooms s)(r \<mapsto> []) else chat_rooms s) \<and>
             (chat_rooms s r \<noteq> None \<longrightarrow> s'' = s))"
proof -
  define r where "r = strip (dict_get data ''room'' ''general'')"
  define s' where "s' = fst (handle_join c data clock s)"
  have s': "s' = \<lparr>active_users = (active_users s)(c \<mapsto> \<lparr>username = strip (dict_get data ''username'' ''''),
          room = r, joined_at = clock 0\<rparr>), chat_rooms = add_to_room c r (chat_rooms s)\<rparr>"
    using valid fresh(1) by (simp add: s'_def r_def handle_join_state Let_def vacate_def)
  have nin: "c \<notin> set (members_of s r)"
    using fresh(2) by (auto simp: members_of_def split: option.splits)
  have add: "add_to_room c r (chat_rooms s) = (chat_rooms s)(r \<mapsto> members_of s r @ [c])"
    using nin by (auto simp: add_to_room_def members_of_def Let_def split: option.splits)
  have au: "active_users (fst (handle_disconnect c clock' s')) = active_users s"
    using fresh(1) by (simp add: handle_disconnect_state s' fun_upd_idem)
  from nin have rm: "remove1 c (members_of s r @ [c]) = members_of s r"
    by (simp add: remove1_append)
  have cr: "chat_rooms (fst (handle_disconnect c clock' s')) = (chat_rooms s)(r \<mapsto> members_of s r)"
    by (simp add: handle_disconnect_state s' vacate_def add remove_from_room_def rm)
  have cr2: "(chat_rooms s)(r \<mapsto> members_of s r) =
      (if chat_rooms s r = None then (chat_rooms s)(r \<mapsto> []) else chat_rooms s)"
    by (auto simp: members_of_def fun_eq_iff split: option.splits)
  have eq: "chat_rooms s r \<noteq> None \<longrightarrow> fst (handle_disconnect c clock' s') = s"
  proof
    assume "chat_rooms s r \<noteq> None"
    with cr cr2 have "chat_rooms (fst (handle_disconnect c clock' s')) = chat_rooms s" by simp
    with au show "fst (handle_disconnect c clock' s') = s" by (simp add: state.equality)
  qed
  from au cr cr2 eq show ?thesis
    unfolding Let_def r_def [symmetric] s'_def [symmetric] by simp
qed

theorem join_then_disconnect_witness:
  "active_users initial_state ''c1'' = None \<and>
   strip (dict_get alice_tech ''username'' '''') \<noteq> [] \<and>
   chat_rooms initial_state ''tech'' \<noteq> None \<and>
   fst (handle_disconnect ''c1'' later_clock
          (fst (handle_join ''c1'' alice_tech example_clock initial_state))) = initial_state"
proof -
  have a: "active_users initial_state ''c1'' = None" by (simp add: initial_state_fields)
  have b: "\<forall>r members. chat_rooms initial_state r = Some members \<longrightarrow> ''c1'' \<notin> set members"
    by (auto simp: initial_state_fields split: if_splits)
  have v: "strip (dict_get alice_tech ''username'' '''') \<noteq> []"
    by (simp add: alice_tech_fields)
  have e: "chat_rooms initial_state ''tech'' \<noteq> None" by (simp add: initial_state_fields)
  from join_then_disconnect [OF a b v, of later_clock example_clock] e
  have "fst (handle_disconnect ''c1'' later_clock
          (fst (handle_join ''c1'' alice_tech example_clock initial_state))) = initial_state"
    by (simp add: Let_def alice_tech_fields)
  with a v e show ?thesis by simp
qed

text \<open>
  C5 as stated fails: \<open>alice\<close> joins the room \<open>lounge\<close>, which the initial state does not
  have, and disconnects; the room \<open>lounge\<close> is still there, empty.
\<close>

theorem join_then_disconnect_counterexample:
  "chat_rooms (fst (handle_disconnect ''c1'' example_clock
      (fst (handle_join ''c1'' alice_new_room example_clock initial_state)))) ''lounge'' = Some []
   \<and> chat_rooms initial_state ''lounge'' = None"
  by (simp add: handle_disconnect_state handle_join_state Let_def alice_new_room_def dict_get_def
      strip_examples vacate_def add_to_room_def remove_from_room_def initial_state_fields)

text \<open>
  C1.  In every state reached from the initial state by connect, join, disconnect,
  message and \<open>get_rooms\<close> events, every connection in a room's member list has an entry
  in \<open>active_users\<close> whose room is that room, and no connection is in the member lists
  of two different rooms.
\<close>

theorem membership_invariant:
  assumes "reachable s"
  shows "(\<forall>r members c. chat_rooms s r = Some members \<and> c \<in> set members \<longrightarrow>
            (\<exists>u. active_users s c = Some u \<and> room u = r))
         \<and> (\<forall>r1 r2 m1 m2 c. chat_rooms s r1 = Some m1 \<and> chat_rooms s r2 = Some m2 \<and>
               c \<in> set m1 \<and> c \<in> set m2 \<longrightarrow> r1 = r2)"
proof -
  from assms have "coherent s" by (rule reachable_coherent)
  then have m: "\<forall>r members c. chat_rooms s r = Some members \<and> c \<in> set members \<longrightarrow>
            (\<exists>u. active_users s c = Some u \<and> room u = r)"
    unfolding coherent_def members_have_session_def by blast
  have "\<forall>r1 r2 m1 m2 c. chat_rooms s r1 = Some m1 \<and> chat_rooms s r2 = Some m2 \<and>
               c \<in> set m1 \<and> c \<in> set m2 \<longrightarrow> r1 = r2"
  proof (intro allI impI, elim conjE)
    fix r1 r2 m1 m2 c
    assume a: "chat_rooms s r1 = Some m1" "c \<in> set m1" and b: "chat_rooms s r2 = Some m2" "c \<in> set m2"
    from m a obtain u where u: "active_users s c = Some u" "room u = r1" by blast
    from m b obtain v where v: "active_users s c = Some v" "room v = r2" by blast
    from u v show "r1 = r2" by simp
  qed
  with m show ?thesis by simp
qed

theorem membership_invariant_witness:
  "reachable alice_in_tech \<and> chat_rooms alice_in_tech ''tech'' = Some [''c1''] \<and>
   ''c1'' \<in> set [''c1''] \<and>
   map_option room (active_users alice_in_tech ''c1'') = Some ''tech''"
proof -
  have m: "chat_rooms alice_in_tech ''tech'' = Some [''c1'']" by (simp add: alice_in_tech_state)
  from membership_invariant [OF reachable_alice_in_tech] m
  have "\<exists>u. active_users alice_in_tech ''c1'' = Some u \<and> room u = ''tech''"
    by (metis list.set_intros(1))
  with reachable_alice_in_tech m show ?thesis by auto
qed

text \<open>
  C9.  In every reachable state no member list holds a connection twice, so taking out
  one occurrence takes the connection out of the list; after a disconnect the
  connection is in no member list, and after a switch to another room it is no longer
  in the list of the room it left.
\<close>

theorem members_distinct_reachable:
  assumes "reachable s"
  shows "(\<forall>r members. chat_rooms s r = Some members \<longrightarrow>
            distinct members \<and> c \<notin> set (remove1 c members))
         \<and> (\<forall>r members. chat_rooms (fst (handle_disconnect c clock s)) r = Some members \<longrightarrow>
              c \<notin> set members)
         \<and> (\<forall>old members.
               active_users s c = Some old \<and> strip (dict_get data ''username'' '''') \<noteq> [] \<and>
               strip (dict_get data ''room'' ''general'') \<noteq> room old \<and>
               chat_rooms (fst (handle_join c data clock s)) (room old) = Some members \<longrightarrow>
               c \<notin> set members)"
proof -
  from assms have co: "coherent s" by (rule reachable_coherent)
  have 1: "\<forall>r members. chat_rooms s r = Some members \<longrightarrow>
            distinct members \<and> c \<notin> set (remove1 c members)"
    using co by (auto simp: coherent_def members_distinct_def)
  have 2: "\<forall>r members. chat_rooms (fst (handle_disconnect c clock s)) r = Some members \<longrightarrow>
              c \<notin> set members"
  proof (intro allI impI)
    fix r members
    assume a: "chat_rooms (fst (handle_disconnect c clock s)) r = Some members"
    show "c \<notin> set members"
    proof (cases "active_users s c")
      case None
      with a have "chat_rooms s r = Some members" by (simp add: handle_disconnect_state)
      with co None show ?thesis by (fastforce simp: coherent_def members_have_session_def)
    next
      case (Some u)
      with a have "vacate c s r = Some members" by (simp add: handle_disconnect_state)
      from vacate_members [OF co this] show ?thesis by auto
    qed
  qed
  have 3: "\<forall>old members.
               active_users s c = Some old \<and> strip (dict_get data ''username'' '''') \<noteq> [] \<and>
               strip (dict_get data ''room'' ''general'') \<noteq> room old \<and>
               chat_rooms (fst (handle_join c data clock s)) (room old) = Some members \<longrightarrow>
               c \<notin> set members"
  proof (intro allI impI, elim conjE)
    fix old members
    assume a: "active_users s c = Some old" "strip (dict_get data ''username'' '''') \<noteq> []"
      "strip (dict_get data ''room'' ''general'') \<noteq> room old"
      "chat_rooms (fst (handle_join c data clock s)) (room old) = Some members"
    then have "vacate c s (room old) = Some members"
      by (simp add: handle_join_state Let_def add_to_room_lookup)
    from vacate_members [OF co this] show "c \<notin> set members" by auto
  qed
  from 1 2 3 show ?thesis by simp
qed

theorem members_distinct_reachable_witness:
  "reachable alice_in_tech \<and>
   chat_rooms alice_in_tech ''tech'' = Some [''c1''] \<and>
   distinct [''c1''] \<and> ''c1'' \<notin> set (remove1 ''c1'' [''c1'']) \<and>
   chat_rooms (fst (handle_disconnect ''c1'' later_clock alice_in_tech)) ''tech'' = Some [] \<and>
   chat_rooms (fst (handle_join ''c1'' alice_new_room later_clock alice_in_tech)) ''tech'' = Some []"
proof -
  have m: "chat_rooms alice_in_tech ''tech'' = Some [''c1'']" by (simp add: alice_in_tech_state)
  have d: "chat_rooms (fst (handle_disconnect ''c1'' later_clock alice_in_tech)) ''tech'' = Some []"
    by (simp add: handle_disconnect_state alice_session vacate_def remove_from_room_lookup m)
  have j: "chat_rooms (fst (handle_join ''c1'' alice_new_room later_clock alice_in_tech)) ''tech'' = Some []"
    by (simp add: handle_join_state Let_def alice_new_room_fields add_to_room_lookup vacate_def
        alice_session remove_from_room_lookup m)
  from members_distinct_reachable [OF reachable_alice_in_tech, where c = "''c1''"] m
  have "distinct [''c1''] \<and> ''c1'' \<notin> set (remove1 ''c1'' [''c1''])" by blast
  with reachable_alice_in_tech m d j show ?thesis by simp
qed

text \<open>
  C4, as the code has it.  In a reachable state, for a connection with an entry in room
  A, a join with a valid user name that names another room B leaves the connection zero
  times in A's list and once in B's, at the end of B's list.  A join that repeats the
  user name and room of the entry leaves every member list with the same set of
  connections and every other entry of \<open>active_users\<close> alone; the entry of the
  connection keeps its user name and room, and its \<open>joined_at\<close> is set to the time of
  this call.
\<close>

theorem room_switch:
  assumes "reachable s" and cur: "active_users s c = Some cur"
    and valid: "strip (dict_get data ''username'' '''') \<noteq> []"
  shows "(let uname = strip (dict_get data ''username'' '''');
              r = strip (dict_get data ''room'' ''general'');
              s' = fst (handle_join c data clock s)
          in (r \<noteq> room cur \<longrightarrow>
                count_list (members_of s' (room cur)) c = 0 \<and>
                count_list (members_of s' r) c = 1 \<and>
                members_of s' r = members_of s r @ [c]) \<and>
             (r = room cur \<and> uname = username cur \<longrightarrow>
                (\<forall>r'. map_option set (chat_rooms s' r') = map_option set (chat_rooms s r')) \<and>
                active_users s' = (active_users s)(c \<mapsto> cur\<lparr>joined_at := clock 0\<rparr>)))"
proof -
  define r where "r = strip (dict_get data ''room'' ''general'')"
  define s' where "s' = fst (handle_join c data clock s)"
  from assms(1) have co: "coherent s" by (rule reachable_coherent)
  have s': "s' = \<lparr>active_users = (active_users s)(c \<mapsto> \<lparr>username = strip (dict_get data ''username'' ''''),
          room = r, joined_at = clock 0\<rparr>), chat_rooms = add_to_room c r (vacate c s)\<rparr>"
    using valid by (simp add: s'_def r_def handle_join_state Let_def)
  from co cur obtain ms0 where ms0: "chat_rooms s (room cur) = Some ms0" "c \<in> set ms0"
    by (auto simp: coherent_def sessions_listed_def in_room_iff)
  from co ms0 have d0: "distinct ms0" by (auto simp: coherent_def members_distinct_def)
  have 1: "r \<noteq> room cur \<longrightarrow>
                count_list (members_of s' (room cur)) c = 0 \<and>
                count_list (members_of s' r) c = 1 \<and>
                members_of s' r = members_of s r @ [c]"
  proof
    assume ne: "r \<noteq> room cur"
    have a: "members_of s' (room cur) = remove1 c ms0"
      using ne cur ms0 by (simp add: members_of_def s' add_to_room_lookup vacate_own)
    from d0 have "c \<notin> set (remove1 c ms0)" by simp
    then have "count_list (remove1 c ms0) c = 0" by (rule count_list_0_iff [THEN iffD2])
    with a have c0: "count_list (members_of s' (room cur)) c = 0" by (simp only:)
    have v: "vacate c s r = chat_rooms s r" using ne cur by (simp add: vacate_other)
    have nin: "c \<notin> set (members_of s r)"
    proof
      assume "c \<in> set (members_of s r)"
      then obtain ms where "chat_rooms s r = Some ms" "c \<in> set ms"
        by (cases "chat_rooms s r") (auto simp: members_of_def)
      with co cur have "room cur = r" by (fastforce simp: coherent_def members_have_session_def)
      with ne show False by simp
    qed
    then have b: "members_of s' r = members_of s r @ [c]"
      by (auto simp: members_of_def s' add_to_room_lookup v split: option.splits)
    from nin have "count_list (members_of s r) c = 0" by (rule count_list_0_iff [THEN iffD2])
    with b have "count_list (members_of s' r) c = 1" by simp
    with c0 b show "count_list (members_of s' (room cur)) c = 0 \<and>
                count_list (members_of s' r) c = 1 \<and>
                members_of s' r = members_of s r @ [c]" by simp
  qed
  have 2: "r = room cur \<and> strip (dict_get data ''username'' '''') = username cur \<longrightarrow>
                (\<forall>r'. map_option set (chat_rooms s' r') = map_option set (chat_rooms s r')) \<and>
                active_users s' = (active_users s)(c \<mapsto> cur\<lparr>joined_at := clock 0\<rparr>)"
  proof (intro impI, elim conjE)
    assume e: "r = room cur" "strip (dict_get data ''username'' '''') = username cur"
    have "\<forall>r'. map_option set (chat_rooms s' r') = map_option set (chat_rooms s r')"
    proof
      fix r'
      show "map_option set (chat_rooms s' r') = map_option set (chat_rooms s r')"
      proof (cases "r' = r")
        case True
        with e cur ms0 d0 show ?thesis
          by (auto simp: s' add_to_room_lookup vacate_own)
      next
        case False
        with e cur show ?thesis by (simp add: s' add_to_room_lookup vacate_other)
      qed
    qed
    moreover have "active_users s' = (active_users s)(c \<mapsto> cur\<lparr>joined_at := clock 0\<rparr>)"
      using e by (cases cur) (simp add: s')
    ultimately show "(\<forall>r'. map_option set (chat_rooms s' r') = map_option set (chat_rooms s r')) \<and>
                active_users s' = (active_users s)(c \<mapsto> cur\<lparr>joined_at := clock 0\<rparr>)" by simp
  qed
  from 1 2 show ?thesis
    unfolding Let_def r_def [symmetric] s'_def [symmetric] by blast
qed

theorem room_switch_witness:
  "reachable alice_in_tech \<and>
   active_users alice_in_tech ''c1'' =
     Some \<lparr>username = ''alice'', room = ''tech'', joined_at = ''2025-01-01T00:00:00''\<rparr> \<and>
   strip (dict_get alice_new_room ''username'' '''') \<noteq> [] \<and>
   strip (dict_get alice_new_room ''room'' ''general'') \<noteq> ''tech'' \<and>
   count_list (members_of (fst (handle_join ''c1'' alice_new_room later_clock alice_in_tech)) ''tech'') ''c1'' = 0 \<and>
   count_list (members_of (fst (handle_join ''c1'' alice_new_room later_clock alice_in_tech)) ''lounge'') ''c1'' = 1 \<and>
   active_users (fst (handle_join ''c1'' alice_tech later_clock alice_in_tech)) ''c1'' =
     Some \<lparr>username = ''alice'', room = ''tech'', joined_at = ''2025-01-01T00:05:00''\<rparr>"
proof -
  have v1: "strip (dict_get alice_new_room ''username'' '''') \<noteq> []"
    by (simp add: alice_new_room_fields)
  have v2: "strip (dict_get alice_tech ''username'' '''') \<noteq> []"
    by (simp add: alice_tech_fields)
  have ne: "strip (dict_get alice_new_room ''room'' ''general'') \<noteq> ''tech''"
    by (simp add: alice_new_room_fields)
  have ne': "''lounge'' \<noteq> ''tech''" by simp
  note sw = room_switch [OF reachable_alice_in_tech alice_session v1, of later_clock,
      unfolded Let_def alice_new_room_fields user_info.simps, THEN conjunct1, THEN mp, OF ne']
  have 1: "count_list (members_of (fst (handle_join ''c1'' alice_new_room later_clock alice_in_tech)) ''tech'') ''c1'' = 0 \<and>
   count_list (members_of (fst (handle_join ''c1'' alice_new_room later_clock alice_in_tech)) ''lounge'') ''c1'' = 1"
    using sw by (elim conjE, intro conjI) assumption+
  from room_switch [OF reachable_alice_in_tech alice_session v2, of later_clock]
  have "active_users (fst (handle_join ''c1'' alice_tech later_clock alice_in_tech)) =
      (active_users alice_in_tech)(''c1'' \<mapsto>
        \<lparr>username = ''alice'', room = ''tech'', joined_at = ''2025-01-01T00:05:00''\<rparr>)"
    by (simp add: Let_def alice_tech_fields later_clock_def)
  then have 2: "active_users (fst (handle_join ''c1'' alice_tech later_clock alice_in_tech)) ''c1'' =
     Some \<lparr>username = ''alice'', room = ''tech'', joined_at = ''2025-01-01T00:05:00''\<rparr>"
    by simp
  from reachable_alice_in_tech alice_session v1 ne 1 2 show ?thesis by simp
qed

text \<open>
  C4 as stated fails in its second half: \<open>alice\<close> joins \<open>tech\<close> and repeats the same join
  five minutes later; the entry after the second call has another \<open>joined_at\<close> than the
  entry after the first call, so the two states differ.
\<close>

theorem repeated_join_counterexample:
  "map_option joined_at
     (active_users (fst (handle_join ''c1'' alice_tech later_clock
        (fst (handle_join ''c1'' alice_tech example_clock initial_state)))) ''c1'') \<noteq>
   map_option joined_at
     (active_users (fst (handle_join ''c1'' alice_tech example_clock initial_state)) ''c1'')"
  by (simp add: handle_join_state Let_def alice_tech_fields later_clock_def example_clock_def)



text \<open>
  C2, as the code has it.  A joined connection sends a message whose trimmed text holds
  \<open>@ai\<close> in some letter case: the user message goes to the room and exactly one thread is
  started, for the sender's room and with the trimmed text.  When the occurrences of the
  token in that text are all in lower case, the prompt the thread computes is the text
  without any of them (all are removed, not the first only), trimmed, and the text
  itself when nothing else is left.
\<close>

theorem ai_job:
  assumes "active_users s c = Some u"
    and "contains (lower (strip (dict_get data ''message'' ''''))) ''@ai''"
  shows "(let m = strip (dict_get data ''message'' '''')
          in handle_message c data clock s =
               (s, [Emit (Room (room u)) (Message (username u) m (clock 0) ''user''),
                    StartThread (room u) m]) \<and>
             (tokens_lower_case ''@ai'' m \<longrightarrow>
                ai_prompt m = (let p = strip (remove_all_ci ''@ai'' m) in if p = [] then m else p)))"
proof -
  define m where "m = strip (dict_get data ''message'' '''')"
  from assms(2) have ne: "m \<noteq> []" unfolding m_def by (rule contains_nonempty)
  from assms ne have 1: "handle_message c data clock s =
      (s, [Emit (Room (room u)) (Message (username u) m (clock 0) ''user''),
           StartThread (room u) m])"
    by (simp add: handle_message_def Let_def m_def)
  have 2: "tokens_lower_case ''@ai'' m \<longrightarrow>
      ai_prompt m = (let p = strip (remove_all_ci ''@ai'' m) in if p = [] then m else p)"
  proof
    assume "tokens_lower_case ''@ai'' m"
    with lower_token have "remove_all ''@ai'' m = remove_all_ci ''@ai'' m"
      by (rule remove_all_ci_eq)
    then show "ai_prompt m = (let p = strip (remove_all_ci ''@ai'' m) in if p = [] then m else p)"
      by (simp add: ai_prompt_def)
  qed
  from 1 2 show ?thesis unfolding Let_def m_def [symmetric] by blast
qed

theorem ai_job_witness:
  "active_users alice_in_tech ''c1'' =
     Some \<lparr>username = ''alice'', room = ''tech'', joined_at = ''2025-01-01T00:00:00''\<rparr> \<and>
   contains (lower (strip (dict_get ask_ai ''message'' ''''))) ''@ai'' \<and>
   tokens_lower_case ''@ai'' ''@ai what is 2+2'' \<and>
   handle_message ''c1'' ask_ai example_clock alice_in_tech =
     (alice_in_tech,
      [Emit (Room ''tech'') (Message ''alice'' ''@ai what is 2+2'' (example_clock 0) ''user''),
       StartThread ''tech'' ''@ai what is 2+2'']) \<and>
   ai_prompt ''@ai what is 2+2'' = ''what is 2+2''"
proof -
  have c: "contains (lower (strip (dict_get ask_ai ''message'' ''''))) ''@ai''"
    by (simp add: ask_ai_message ask_ai_lower)
  have t: "tokens_lower_case ''@ai'' ''@ai what is 2+2''"
    using ask_ai_lower by (rule lower_fixed_tokens)
  have "remove_all_ci ''@ai'' ''@ai what is 2+2'' = remove_all ''@ai'' ''@ai what is 2+2''"
    using lower_token t by (rule remove_all_ci_eq [symmetric])
  then have p: "(let p = strip (remove_all_ci ''@ai'' ''@ai what is 2+2'')
            in if p = [] then ''@ai what is 2+2'' else p) = ''what is 2+2''"
    by (simp add: strip_def isspace_def whitespace_def)
  note j = ai_job [OF alice_session c, of example_clock, unfolded Let_def ask_ai_message
      user_info.simps]
  from j have 1: "handle_message ''c1'' ask_ai example_clock alice_in_tech =
     (alice_in_tech,
      [Emit (Room ''tech'') (Message ''alice'' ''@ai what is 2+2'' (example_clock 0) ''user''),
       StartThread ''tech'' ''@ai what is 2+2''])"
    by (rule conjunct1)
  from j [THEN conjunct2, THEN mp, OF t] p
  have 2: "ai_prompt ''@ai what is 2+2'' = ''what is 2+2''"
    by (simp only: Let_def)
  from alice_session c t 1 2 show ?thesis by (intro conjI)
qed

text \<open>
  C2 as stated fails: for \<open>@ai a @ai b\<close> the code removes both occurrences and sends the
  prompt \<open>a  b\<close>, while removing the first occurrence only gives \<open>a @ai b\<close>.
\<close>

theorem ai_prompt_all_occurrences_counterexample:
  "ai_prompt ''@ai a @ai b'' = ''a  b'' \<and>
   strip (remove_first_ci ''@ai'' ''@ai a @ai b'') = ''a @ai b''"
  by (simp add: ai_prompt_def strip_def isspace_def whitespace_def lower_def lower_char_def
      upper_letters_def lower_letters_def)

end
